theory Spec2Isabelle
  imports Main "HOL-Library.Word"
begin

unbundle bit_operations_syntax

section \<open>What is modelled\<close>

text \<open>
  The kernel module \<open>secvault.c\<close>: the pool of vaults, the data-path handlers
  \<open>vault_open\<close>, \<open>vault_release\<close>, \<open>vault_llseek\<close>, \<open>vault_read\<close>, \<open>vault_write\<close> and the
  control handler \<open>ioctl_handler\<close>, with \<open>reset_vault\<close>, \<open>get_current_uid\<close>,
  \<open>xor_buffer\<close> and the state \<open>mod_init\<close> builds. Each handler is a function from
  the state it works on to its result and the state it leaves.

  One handler runs at a time, from entry to return. What it finds in the kernel
  (the caller's uid, whether allocations succeed, how much of a user buffer can be
  copied) is an argument. A handler that finds the semaphore of its vault taken
  returns only because its wait is interrupted; a state with the count 0 stands for
  another context being inside a handler of that vault.

  The VFS passes the handlers a position that is not negative, and a length with
  \<open>position + length\<close> inside \<open>loff_t\<close>; \<open>pread\<close> and \<open>pwrite\<close> pass the caller's
  position, \<open>read\<close> and \<open>write\<close> the position of the open file.
\<close>

section \<open>Machine integers and constants of common.h\<close>

text \<open>
  The module is modelled on an LP64 kernel: \<open>unsigned long\<close> and \<open>size_t\<close> are
  64-bit unsigned, \<open>loff_t\<close> and \<open>ssize_t\<close> are 64-bit signed, \<open>uid_t\<close> is 32-bit
  unsigned and \<open>char\<close> is a byte. Sizes and counts are natural numbers, file
  positions are integers; every place where the C arithmetic is carried out in an
  unsigned 64-bit type is written with \<open>u64\<close> (reduction modulo \<open>2 ^ 64\<close>), every
  conversion to a signed 64-bit type with \<open>s64\<close> (two's complement, as the kernel is
  built with wrapping signed arithmetic).
\<close>

type_synonym byte = "8 word"
type_synonym uid_t = "32 word"

definition u64 :: "int \<Rightarrow> nat" where
  "u64 x = nat (x mod 2 ^ 64)"

definition s64 :: "int \<Rightarrow> int" where
  "s64 x = (x + 2 ^ 63) mod 2 ^ 64 - 2 ^ 63"

definition N_VAULTS :: nat where "N_VAULTS = 4"
definition KEYSIZE :: nat where "KEYSIZE = 10"
definition MAX_DATA :: nat where "MAX_DATA = 1048576"
definition MAJOR_NUM :: nat where "MAJOR_NUM = 231"

definition SEEK_SET :: int where "SEEK_SET = 0"
definition SEEK_CUR :: int where "SEEK_CUR = 1"
definition SEEK_END :: int where "SEEK_END = 2"

text \<open>\<open>MKDEV(ma, mi)\<close> of the kernel headers: \<open>(ma << 20) | mi\<close> for a minor below \<open>2 ^ 20\<close>.\<close>

definition MKDEV :: "nat \<Rightarrow> nat \<Rightarrow> nat" where
  "MKDEV ma mi = ma * 2 ^ 20 + mi"

section \<open>Results of a handler\<close>

text \<open>
  A handler returns a negative errno or a value, and may have changed the state it
  works on in either case. \<open>MemFault\<close> stands for a \<open>memcpy\<close> or \<open>memset\<close> that
  addresses bytes outside the allocation it is given (undefined behaviour in C, a
  kernel heap overrun or a NULL dereference in practice): nothing is said about the
  state after it.
\<close>

datatype errno = EACCES | EINVAL | ENOMEM | ERESTARTSYS

datatype ('a, 's) outcome = MemFault | Err errno 's | Ok 'a 's

section \<open>The vault\<close>

text \<open>
  \<open>vault_t\<close>. \<open>data\<close> and \<open>driver\<close> are pointers: \<open>None\<close> is \<open>NULL\<close>, \<open>Some bs\<close> an
  allocation holding the bytes \<open>bs\<close>, \<open>Some p\<close> the cdev object \<open>p\<close>. \<open>sem\<close> is the
  count of the vault's semaphore. \<open>in_use\<close> holds 0 or 1 in the source.
\<close>

record vault =
  key :: "byte list"
  data :: "byte list option"
  driver :: "nat option"
  sem :: nat
  size_v :: nat
  used_space :: nat
  number :: nat
  owner :: uid_t
  in_use :: bool

text \<open>\<open>struct msg_t\<close> of common.h, as the handler holds it after copying it in.\<close>

record msg_t =
  msg_key :: "byte list"
  msg_size :: nat
  msg_device :: nat

text \<open>
  What a call finds in the kernel around it: the caller's uid and the kernel version
  that \<open>get_current_uid\<close> reads, whether \<open>kmalloc\<close> finds memory, what \<open>cdev_alloc\<close>
  returns and the error indicator of \<open>cdev_add\<close>.
\<close>

record kernel =
  version_le_4_14 :: bool
  current_uid :: uid_t
  kmalloc_ok :: bool
  cdev_alloc :: "nat option"
  cdev_add :: int

subsection \<open>Kernel primitives\<close>

text \<open>
  \<open>down_interruptible\<close> takes the semaphore when its count is positive. With the
  count at 0 another context holds the vault; the caller sleeps, and the call comes
  back only with a nonzero result when a signal interrupts the wait: \<open>None\<close>.
  \<open>up\<close> increments the count.
\<close>

definition down_interruptible :: "nat \<Rightarrow> nat option" where
  "down_interruptible count = (if 0 < count then Some (count - 1) else None)"

definition up :: "vault \<Rightarrow> vault" where
  "up vault = vault\<lparr>sem := sem vault + 1\<rparr>"

text \<open>\<open>kmalloc\<close> returns a non-NULL pointer: always for zero bytes (\<open>ZERO_SIZE_PTR\<close>).\<close>

definition kmalloc :: "kernel \<Rightarrow> nat \<Rightarrow> bool" where
  "kmalloc k n = (n = 0 \<or> kmalloc_ok k)"

text \<open>
  \<open>copy_to_user(user, buffer, n)\<close> returns the number of bytes it could not copy:
  \<open>room\<close> is the number of bytes the user's destination accepts.
  \<open>copy_from_user(buffer, user, n)\<close> copies what is readable at the user's pointer
  (the list \<open>user\<close>), pads the buffer with zero bytes to \<open>n\<close> and returns the number
  of bytes it could not copy.
\<close>

definition copy_to_user :: "nat \<Rightarrow> nat \<Rightarrow> nat" where
  "copy_to_user room n = n - min n room"

definition copy_from_user :: "byte list \<Rightarrow> nat \<Rightarrow> byte list \<times> nat" where
  "copy_from_user user n =
     (take n user @ replicate (n - length user) 0, n - min n (length user))"

text \<open>
  \<open>memcpy(buffer, data + offset, n)\<close> and \<open>memcpy(data + offset, buffer, n)\<close>: the
  bytes read, or the allocation after the write; \<open>None\<close> when \<open>n\<close> is positive and
  the range \<open>[offset, offset + n)\<close> is not inside the allocation.
\<close>

definition memcpy_from :: "byte list option \<Rightarrow> int \<Rightarrow> nat \<Rightarrow> byte list option" where
  "memcpy_from d offset n =
     (if n = 0 then Some []
      else case d of
        None \<Rightarrow> None
      | Some bs \<Rightarrow>
          if 0 \<le> offset \<and> nat offset + n \<le> length bs
          then Some (take n (drop (nat offset) bs)) else None)"

definition memcpy_to :: "byte list option \<Rightarrow> int \<Rightarrow> byte list \<Rightarrow> byte list option option" where
  "memcpy_to d offset buffer =
     (if buffer = [] then Some d
      else case d of
        None \<Rightarrow> None
      | Some bs \<Rightarrow>
          if 0 \<le> offset \<and> nat offset + length buffer \<le> length bs
          then Some (Some (take (nat offset) bs @ buffer @ drop (nat offset + length buffer) bs))
          else None)"

definition memset0 :: "byte list option \<Rightarrow> nat \<Rightarrow> byte list option option" where
  "memset0 d n = memcpy_to d 0 (replicate n 0)"

subsection \<open>reset_vault, get_current_uid, mod_init\<close>

definition reset_vault :: "vault \<Rightarrow> vault" where
  "reset_vault vault =
     vault\<lparr>in_use := False, size_v := 0, used_space := 0, owner := - 1,
           driver := None, data := None\<rparr>"

definition get_current_uid :: "kernel \<Rightarrow> uid_t" where
  "get_current_uid k = (if version_le_4_14 k then current_uid k else 1)"

text \<open>
  \<open>mod_init\<close>: \<open>memset(&vaults, 0, sizeof(vaults))\<close>, then per vault \<open>data\<close>, \<open>driver\<close>,
  \<open>number\<close>, \<open>in_use\<close> and the semaphore. \<open>owner\<close> keeps the 0 of the \<open>memset\<close>.
\<close>

definition init_vault :: "nat \<Rightarrow> vault" where
  "init_vault i =
     \<lparr>key = replicate KEYSIZE 0, data = None, driver = None, sem = 1, size_v = 0,
      used_space = 0, number = MKDEV MAJOR_NUM i, owner = 0, in_use = False\<rparr>"

definition mod_init :: "vault list" where
  "mod_init = map init_vault [0..<N_VAULTS]"

section \<open>The data path\<close>

definition vault_open :: "kernel \<Rightarrow> vault \<Rightarrow> (unit, vault) outcome" where
  "vault_open k vault =
     (if owner vault \<noteq> get_current_uid k then Err EACCES vault else Ok () vault)"

definition vault_release :: "kernel \<Rightarrow> vault \<Rightarrow> (unit, vault) outcome" where
  "vault_release k vault =
     (if owner vault \<noteq> get_current_uid k then Err EACCES vault else Ok () vault)"

text \<open>
  \<open>vault_llseek\<close>. The state is the vault and \<open>file->f_pos\<close>. \<open>vault->size - 1 - offset\<close>
  is computed in unsigned 64-bit arithmetic and stored in a \<open>loff_t\<close>; the comparison
  \<open>new_offset >= vault->size\<close> is unsigned.
\<close>

definition vault_llseek :: "kernel \<Rightarrow> vault \<Rightarrow> int \<Rightarrow> int \<Rightarrow> int \<Rightarrow> (int, vault \<times> int) outcome" where
  "vault_llseek k vault f_pos offset whence =
     (if owner vault \<noteq> get_current_uid k then Err EACCES (vault, f_pos)
      else case down_interruptible (sem vault) of
        None \<Rightarrow> Err ERESTARTSYS (up vault, f_pos)
      | Some s \<Rightarrow>
          let vault = vault\<lparr>sem := s\<rparr> in
          if whence = SEEK_SET \<or> whence = SEEK_CUR \<or> whence = SEEK_END then
            let new_offset =
                  (if whence = SEEK_SET then offset
                   else if whence = SEEK_CUR then s64 (f_pos + offset)
                   else s64 (int (size_v vault) - 1 - offset))
            in if new_offset < 0 \<or> size_v vault \<le> u64 new_offset
               then Err EINVAL (up vault, f_pos)
               else Ok new_offset (up vault, new_offset)
          else Err EINVAL (up vault, f_pos))"

text \<open>
  \<open>xor_buffer\<close>: the loop \<open>for (i = 0; i < len; i++)\<close>, started at \<open>i\<close>. The
  handlers pass the size of the buffer as \<open>len\<close>, below \<open>2 ^ 31\<close> (the counter is an
  \<open>int\<close>). For the positions the VFS passes (never negative) C's \<open>%\<close> is \<open>mod\<close>.
\<close>

function xor_loop :: "nat \<Rightarrow> nat \<Rightarrow> int \<Rightarrow> byte list \<Rightarrow> byte list \<Rightarrow> byte list" where
  "xor_loop i len offset k buffer =
     (if i < len
      then xor_loop (Suc i) len offset k
             (buffer[i := buffer ! i XOR k ! nat ((offset + int i) mod int KEYSIZE)])
      else buffer)"
  by pat_completeness auto
termination
  by (relation "measure (\<lambda>(i, len, offset, k, buffer). len - i)") auto

definition xor_buffer :: "byte list \<Rightarrow> nat \<Rightarrow> int \<Rightarrow> byte list \<Rightarrow> byte list" where
  "xor_buffer buffer len offset k = xor_loop 0 len offset k buffer"

text \<open>
  \<open>vault_read\<close>. The state is the vault and \<open>*offset\<close>; the value is the count
  returned and the bytes delivered to the user. \<open>len_avail\<close> is a \<open>size_t\<close>.
\<close>

definition vault_read ::
  "kernel \<Rightarrow> vault \<Rightarrow> nat \<Rightarrow> nat \<Rightarrow> int \<Rightarrow> (int \<times> byte list, vault \<times> int) outcome" where
  "vault_read k vault room len offset =
     (if owner vault \<noteq> get_current_uid k then Err EACCES (vault, offset)
      else case down_interruptible (sem vault) of
        None \<Rightarrow> Err ERESTARTSYS (up vault, offset)
      | Some s \<Rightarrow>
          let vault = vault\<lparr>sem := s\<rparr>;
              len_avail = u64 (int (used_space vault) - offset);
              to_copy = (if len_avail < len then len_avail else len)
          in if \<not> kmalloc k to_copy then Err ENOMEM (up vault, offset)
             else (case memcpy_from (data vault) offset to_copy of
               None \<Rightarrow> MemFault
             | Some buffer0 \<Rightarrow>
                 let buffer = xor_buffer buffer0 to_copy offset (key vault);
                     not_copied = copy_to_user room to_copy
                 in Ok (s64 (int to_copy - int not_copied), take (to_copy - not_copied) buffer)
                       (up vault, s64 (offset + (int to_copy - int not_copied)))))"

text \<open>
  \<open>vault_write\<close>. \<open>user\<close> is what is readable at the user's pointer. \<open>used_space\<close> is
  updated before the \<open>memcpy\<close>, which copies \<open>to_copy\<close> bytes.
\<close>

definition vault_write ::
  "kernel \<Rightarrow> vault \<Rightarrow> byte list \<Rightarrow> nat \<Rightarrow> int \<Rightarrow> (int, vault \<times> int) outcome" where
  "vault_write k vault user len offset =
     (if owner vault \<noteq> get_current_uid k then Err EACCES (vault, offset)
      else case down_interruptible (sem vault) of
        None \<Rightarrow> Err ERESTARTSYS (up vault, offset)
      | Some s \<Rightarrow>
          let vault = vault\<lparr>sem := s\<rparr>;
              len_avail = u64 (int (size_v vault) - offset);
              to_copy = (if len_avail < len then len_avail else len)
          in if \<not> kmalloc k to_copy then Err ENOMEM (up vault, offset)
             else
               let (buffer0, not_copied) = copy_from_user user to_copy;
                   buffer = xor_buffer buffer0 to_copy offset (key vault);
                   max_written = u64 (offset + int to_copy - int not_copied);
                   vault = (if used_space vault < max_written
                            then vault\<lparr>used_space := max_written\<rparr> else vault)
               in (case memcpy_to (data vault) offset buffer of
                    None \<Rightarrow> MemFault
                  | Some d \<Rightarrow>
                      Ok (s64 (int to_copy - int not_copied))
                         (up (vault\<lparr>data := d\<rparr>),
                          s64 (offset + (int to_copy - int not_copied)))))"

section \<open>The control path\<close>

text \<open>
  The \<open>switch\<close> of \<open>ioctl_handler\<close>, on the vault whose semaphore the handler has
  taken; every path releases it.
\<close>

definition ioctl_switch :: "kernel \<Rightarrow> vault \<Rightarrow> nat \<Rightarrow> msg_t \<Rightarrow> (unit, vault) outcome" where
  "ioctl_switch k vault cmd msg =
     (if cmd = 0 then
        if in_use vault then Err EINVAL (up vault)
        else if msg_size msg < 1 \<or> MAX_DATA < msg_size msg then Err EINVAL (up vault)
        else case cdev_alloc k of
          None \<Rightarrow> Err EINVAL (up vault)
        | Some sv_driver \<Rightarrow>
            let vault = vault\<lparr>driver := Some sv_driver\<rparr> in
            if cdev_add k \<noteq> 0 then Err EINVAL (up vault)
            else if \<not> kmalloc k (msg_size msg) then Err ENOMEM (up (vault\<lparr>data := None\<rparr>))
            else Ok () (up (vault\<lparr>data := Some (replicate (msg_size msg) 0),
                                  in_use := True, size_v := msg_size msg, used_space := 0,
                                  owner := get_current_uid k,
                                  key := take KEYSIZE (msg_key msg)\<rparr>))
      else if cmd = 1 then
        if \<not> in_use vault then Err EINVAL (up vault)
        else if owner vault \<noteq> get_current_uid k then Err EACCES (up vault)
        else Ok () (up (vault\<lparr>key := take KEYSIZE (msg_key msg)\<rparr>))
      else if cmd = 5 then
        if \<not> in_use vault then Err EINVAL (up vault)
        else if owner vault \<noteq> get_current_uid k then Err EACCES (up vault)
        else case memset0 (data vault) (size_v vault) of
          None \<Rightarrow> MemFault
        | Some d \<Rightarrow> Ok () (up (vault\<lparr>used_space := 0, data := d\<rparr>))
      else if cmd = 3 then
        if \<not> in_use vault then Err EINVAL (up vault)
        else if owner vault \<noteq> get_current_uid k then Err EACCES (up vault)
        else Ok () (up (reset_vault vault))
      else Err EINVAL (up vault))"

text \<open>
  \<open>ioctl_handler\<close> on the pool \<open>vaults\<close>. \<open>msg\<close> is the message as copied in (the
  test \<open>errind < 0\<close> on the count \<open>copy_from_user\<close> returns never fires).
\<close>

definition ioctl_handler ::
  "kernel \<Rightarrow> vault list \<Rightarrow> nat \<Rightarrow> msg_t \<Rightarrow> (unit, vault list) outcome" where
  "ioctl_handler k vaults cmd msg0 =
     (let msg = msg0\<lparr>msg_key := (msg_key msg0)[KEYSIZE := 0]\<rparr> in
      if N_VAULTS \<le> msg_device msg then Err EINVAL vaults
      else
        let vault = vaults ! msg_device msg in
        case down_interruptible (sem vault) of
          None \<Rightarrow> Err ERESTARTSYS (vaults[msg_device msg := up vault])
        | Some s \<Rightarrow>
            (case ioctl_switch k (vault\<lparr>sem := s\<rparr>) cmd msg of
               MemFault \<Rightarrow> MemFault
             | Err e v \<Rightarrow> Err e (vaults[msg_device msg := v])
             | Ok r v \<Rightarrow> Ok r (vaults[msg_device msg := v])))"

section \<open>Notions used to state the properties\<close>

text \<open>
  An Active vault as \<open>Create\<close> leaves it and the in-range operations keep it: in use,
  its buffer \<open>size\<close> bytes long, \<open>1 \<le> size \<le> MAX_DATA\<close>, \<open>used_space \<le> size\<close>, a
  key of \<open>KEYSIZE\<close> bytes, and its semaphore free.
\<close>

definition active :: "vault \<Rightarrow> bool" where
  "active v =
     (in_use v \<and> (case data v of None \<Rightarrow> False | Some bs \<Rightarrow> length bs = size_v v) \<and>
      1 \<le> size_v v \<and> size_v v \<le> MAX_DATA \<and> used_space v \<le> size_v v \<and>
      length (key v) = KEYSIZE \<and> 0 < sem v)"

text \<open>The byte at index \<open>i\<close> of the buffer \<open>bs\<close>, decrypted under the key \<open>k\<close>.\<close>

definition dec :: "byte list \<Rightarrow> byte list \<Rightarrow> nat \<Rightarrow> byte" where
  "dec k bs i = bs ! i XOR k ! (i mod KEYSIZE)"

text \<open>
  A plaintext written as a sequence of \<open>write\<close> calls on one open file, one call per
  chunk, each with the whole chunk readable at the user's pointer; the position is
  threaded from call to call as the VFS does. \<open>None\<close> when a call fails.
\<close>

fun write_chunks :: "kernel \<Rightarrow> vault \<Rightarrow> int \<Rightarrow> byte list list \<Rightarrow> (vault \<times> int) option" where
  "write_chunks k vault offset [] = Some (vault, offset)"
| "write_chunks k vault offset (c # cs) =
     (case vault_write k vault c (length c) offset of
        Ok n (vault', offset') \<Rightarrow> write_chunks k vault' offset' cs
      | _ \<Rightarrow> None)"

text \<open>
  A sequence of \<open>read\<close> calls of the requested lengths \<open>ls\<close>, each into a user buffer
  that accepts all of it; the value is what the calls deliver, one after the other.
\<close>

fun read_chunks :: "kernel \<Rightarrow> vault \<Rightarrow> int \<Rightarrow> nat list \<Rightarrow> byte list option" where
  "read_chunks k vault offset [] = Some []"
| "read_chunks k vault offset (l # ls) =
     (case vault_read k vault l l offset of
        Ok (n, out) (vault', offset') \<Rightarrow>
          (case read_chunks k vault' offset' ls of
             None \<Rightarrow> None
           | Some rest \<Rightarrow> Some (out @ rest))
      | _ \<Rightarrow> None)"


text \<open>
  The state a handler leaves behind, whether it fails or not; \<open>None\<close> after a
  \<open>MemFault\<close>.
\<close>

definition settle :: "('a, 's) outcome \<Rightarrow> 's option" where
  "settle r = (case r of MemFault \<Rightarrow> None | Err e s \<Rightarrow> Some s | Ok x s \<Rightarrow> Some s)"

text \<open>
  A call of one of the handlers on the pool: the data-path calls name the vault by
  its minor number \<open>d\<close>, the control call carries the command and the message.
  \<open>run\<close> is the pool after the call.
\<close>

datatype call =
    Open nat
  | Release nat
  | Llseek nat int int int
  | Read nat nat nat int
  | Write nat "byte list" nat int
  | Ioctl nat msg_t

fun run :: "kernel \<Rightarrow> call \<Rightarrow> vault list \<Rightarrow> vault list option" where
  "run k (Open d) vaults =
     map_option (\<lambda>v. vaults[d := v]) (settle (vault_open k (vaults ! d)))"
| "run k (Release d) vaults =
     map_option (\<lambda>v. vaults[d := v]) (settle (vault_release k (vaults ! d)))"
| "run k (Llseek d f_pos offset whence) vaults =
     map_option (\<lambda>(v, pos). vaults[d := v])
       (settle (vault_llseek k (vaults ! d) f_pos offset whence))"
| "run k (Read d room len offset) vaults =
     map_option (\<lambda>(v, pos). vaults[d := v])
       (settle (vault_read k (vaults ! d) room len offset))"
| "run k (Write d user len offset) vaults =
     map_option (\<lambda>(v, pos). vaults[d := v])
       (settle (vault_write k (vaults ! d) user len offset))"
| "run k (Ioctl cmd msg) vaults = settle (ioctl_handler k vaults cmd msg)"

text \<open>
  A sequence of \<open>write\<close> calls on one vault, each with its own caller, user bytes,
  length and position. The value is the vault after the calls and, for every call
  that returns a count \<open>n\<close>, the end \<open>offset + n\<close> of what it wrote.
\<close>

fun write_seq :: "vault \<Rightarrow> (kernel \<times> byte list \<times> nat \<times> int) list \<Rightarrow> (vault \<times> nat list) option" where
  "write_seq vault [] = Some (vault, [])"
| "write_seq vault ((k, user, len, offset) # ws) =
     (case vault_write k vault user len offset of
        MemFault \<Rightarrow> None
      | Err e (vault', offset') \<Rightarrow> write_seq vault' ws
      | Ok n (vault', offset') \<Rightarrow>
          (case write_seq vault' ws of
             None \<Rightarrow> None
           | Some (vault'', ends) \<Rightarrow> Some (vault'', nat (offset + n) # ends)))"

subsection \<open>A concrete run\<close>

text \<open>
  The caller with uid 1000 creates vault 0 with 16 bytes and the key \<open>ABCDEFGHIJ\<close>
  (\<open>ex_vault\<close>) and writes \<open>HELLO\<close> at position 0 (\<open>ex_hello\<close>).
\<close>

definition ex_kernel :: kernel where
  "ex_kernel = \<lparr>version_le_4_14 = True, current_uid = 1000, kmalloc_ok = True,
                 cdev_alloc = Some 1, cdev_add = 0\<rparr>"

definition ex_msg :: msg_t where
  "ex_msg = \<lparr>msg_key = [65, 66, 67, 68, 69, 70, 71, 72, 73, 74, 0], msg_size = 16,
              msg_device = 0\<rparr>"

definition ex_vault :: vault where
  "ex_vault = \<lparr>key = [65, 66, 67, 68, 69, 70, 71, 72, 73, 74],
                data = Some [0, 0, 0, 0, 0, 0, 0, 0, 0, 0, 0, 0, 0, 0, 0, 0],
                driver = Some 1, sem = 1, size_v = 16,
                used_space = 0, number = MKDEV MAJOR_NUM 0, owner = 1000, in_use = True\<rparr>"

definition ex_hello :: vault where
  "ex_hello = ex_vault\<lparr>used_space := 5,
                        data := Some [9, 7, 15, 8, 10, 0, 0, 0, 0, 0, 0, 0, 0, 0, 0, 0]\<rparr>"

text \<open>
  \<open>ex_written\<close>: \<open>ex_vault\<close> after \<open>HE\<close> and \<open>LLO\<close> are written from position 3.
  \<open>ex_hxylo\<close>: \<open>ex_hello\<close> after a further write of \<open>XY\<close> at position 1. \<open>ex_intruder\<close> and
  \<open>ex_root\<close> are other callers (uid 1001, uid 0); under \<open>ex_nomem\<close> \<open>kmalloc\<close> finds
  no memory, and \<open>ex_failed\<close> is vault 0 of the fresh module after a \<open>Create\<close> that
  failed so. \<open>ex_held\<close> is \<open>ex_vault\<close> while another context holds its semaphore.
\<close>

definition ex_written :: vault where
  "ex_written = ex_vault\<lparr>used_space := 8,
                         data := Some [0, 0, 0, 12, 0, 10, 11, 7, 0, 0, 0, 0, 0, 0, 0, 0]\<rparr>"

definition ex_hxylo :: vault where
  "ex_hxylo = ex_hello\<lparr>data := Some [9, 26, 26, 8, 10, 0, 0, 0, 0, 0, 0, 0, 0, 0, 0, 0]\<rparr>"

definition ex_intruder :: kernel where
  "ex_intruder = ex_kernel\<lparr>current_uid := 1001\<rparr>"

definition ex_root :: kernel where
  "ex_root = ex_kernel\<lparr>current_uid := 0\<rparr>"

definition ex_nomem :: kernel where
  "ex_nomem = ex_kernel\<lparr>kmalloc_ok := False\<rparr>"

definition ex_failed :: vault where
  "ex_failed = (init_vault 0)\<lparr>driver := Some 1\<rparr>"

definition ex_held :: vault where
  "ex_held = ex_vault\<lparr>sem := 0\<rparr>"


section \<open>Arithmetic and the keystream loop\<close>

lemma u64_id: "0 \<le> x \<Longrightarrow> x < 2 ^ 64 \<Longrightarrow> u64 x = nat x"
  by (simp add: u64_def)

lemma s64_wrap: "2 ^ 63 \<le> x \<Longrightarrow> x < 2 ^ 64 + 2 ^ 63 \<Longrightarrow> s64 x = x - 2 ^ 64"
proof -
  assume a: "2 ^ 63 \<le> x" "x < 2 ^ 64 + 2 ^ 63"
  have "(x + 2 ^ 63) mod 2 ^ 64 = (x + 2 ^ 63 - 2 ^ 64) mod 2 ^ 64"
    by (metis minus_mod_self2)
  also have "\<dots> = x + 2 ^ 63 - 2 ^ 64" using a by (intro mod_pos_pos_trivial) auto
  finally show ?thesis by (simp add: s64_def)
qed

lemma s64_id: "- (2 ^ 63) \<le> x \<Longrightarrow> x < 2 ^ 63 \<Longrightarrow> s64 x = x"
  by (simp add: s64_def)

lemma up_down [simp]: "0 < sem vault \<Longrightarrow> up (vault\<lparr>sem := sem vault - Suc 0\<rparr>) = vault"
  by (simp add: up_def)

declare xor_loop.simps [simp del]

lemma length_xor_loop [simp]: "length (xor_loop i len offset k buffer) = length buffer"
proof (induction i len offset k buffer rule: xor_loop.induct)
  case (1 i len offset k buffer)
  show ?case
  proof (cases "i < len")
    case True
    then show ?thesis using "1.IH" by (subst xor_loop.simps) simp
  next
    case False
    then show ?thesis by (subst xor_loop.simps) simp
  qed
qed

lemma nth_xor_loop:
  "j < length buffer \<Longrightarrow>
   xor_loop i len offset k buffer ! j =
     (if i \<le> j \<and> j < len then buffer ! j XOR k ! nat ((offset + int j) mod int KEYSIZE)
      else buffer ! j)"
proof (induction i len offset k buffer rule: xor_loop.induct)
  case (1 i len offset k buffer)
  show ?case
  proof (cases "i < len")
    case True
    have "xor_loop i len offset k buffer ! j =
          xor_loop (Suc i) len offset k
             (buffer[i := buffer ! i XOR k ! nat ((offset + int i) mod int KEYSIZE)]) ! j"
      using True by (subst xor_loop.simps) simp
    also have "\<dots> = (if i \<le> j \<and> j < len then buffer ! j XOR k ! nat ((offset + int j) mod int KEYSIZE)
      else buffer ! j)"
      using "1.IH" [OF True] "1.prems" True
      by (cases "i = j") (auto simp: nth_list_update)
    finally show ?thesis .
  next
    case False
    then show ?thesis by (subst xor_loop.simps) auto
  qed
qed

lemma length_xor_buffer [simp]: "length (xor_buffer buffer len offset k) = length buffer"
  by (simp add: xor_buffer_def)

lemma nth_xor_buffer:
  "j < length buffer \<Longrightarrow> length buffer = len \<Longrightarrow> 0 \<le> offset \<Longrightarrow>
   xor_buffer buffer len offset k ! j = buffer ! j XOR k ! ((nat offset + j) mod KEYSIZE)"
proof -
  assume a: "j < length buffer" "length buffer = len" "0 \<le> offset"
  have "nat ((offset + int j) mod int KEYSIZE) = (nat offset + j) mod KEYSIZE"
    using a(3) by (simp add: nat_mod_distrib nat_add_distrib KEYSIZE_def)
  then show ?thesis using a by (simp add: xor_buffer_def nth_xor_loop)
qed


lemma vault_write_in_range:
  assumes own: "owner v = get_current_uid k" and sem: "0 < sem v" and km: "kmalloc_ok k"
    and d: "data v = Some bs" and lb: "length bs = size_v v" and sz: "size_v v \<le> MAX_DATA"
    and o0: "0 \<le> off" and o1: "nat off \<le> size_v v"
  shows "vault_write k v user len off =
     (let n = min len (size_v v - nat off); a = min n (length user) in
      Ok (int a)
         (v\<lparr>used_space := max (used_space v) (nat off + a),
            data := Some (take (nat off) bs @
                          xor_buffer (take n user @ replicate (n - length user) 0) n off (key v) @
                          drop (nat off + n) bs)\<rparr>,
          off + int a))"
proof -
  define n where "n = min len (size_v v - nat off)"
  define a where "a = min n (length user)"
  define buffer where
    "buffer = xor_buffer (take n user @ replicate (n - length user) 0) n off (key v)"
  have szb: "int (size_v v) \<le> 1048576" using sz by (simp add: MAX_DATA_def)
  have la: "u64 (int (size_v v) - off) = size_v v - nat off"
    using o0 o1 szb by (subst u64_id) auto
  have tc: "(if size_v v - nat off < len then size_v v - nat off else len) = n"
    by (simp add: n_def min_def)
  have nle: "nat off + n \<le> size_v v" using o1 by (simp add: n_def)
  have ale: "a \<le> n" by (simp add: a_def)
  have cfu: "copy_from_user user n = (take n user @ replicate (n - length user) 0, n - a)"
    by (simp add: copy_from_user_def a_def)
  have diff: "int n - int (n - a) = int a" using ale by simp
  have mw: "u64 (off + int n - int (n - a)) = nat off + a"
  proof -
    have "off + int n - int (n - a) = off + int a" using ale by simp
    moreover have "u64 (off + int a) = nat (off + int a)"
      using o0 o1 ale nle szb by (intro u64_id) auto
    ultimately show ?thesis using o0 by (simp add: nat_add_distrib)
  qed
  have r1: "s64 (int a) = int a" using ale nle szb by (intro s64_id) auto
  have r2: "s64 (off + int a) = off + int a" using o0 o1 ale nle szb by (intro s64_id) auto
  have lbuf: "length buffer = n" by (auto simp: buffer_def)
  have mc: "memcpy_to (Some bs) off buffer =
            Some (Some (take (nat off) bs @ buffer @ drop (nat off + n) bs))"
  proof (cases "n = 0")
    case True
    then have "buffer = []" using lbuf by simp
    then show ?thesis using True by (simp add: memcpy_to_def)
  next
    case False
    then have "buffer \<noteq> []" using lbuf by auto
    then show ?thesis using o0 nle lb lbuf by (simp add: memcpy_to_def)
  qed
  have upd: "(if used_space v < nat off + a then v\<lparr>sem := sem v - Suc 0, used_space := nat off + a\<rparr>
              else v\<lparr>sem := sem v - Suc 0\<rparr>) =
             v\<lparr>sem := sem v - Suc 0, used_space := max (used_space v) (nat off + a)\<rparr>"
    by (simp add: max_def)
  have "vault_write k v user len off =
      Ok (int a)
         (up (v\<lparr>sem := sem v - Suc 0, used_space := max (used_space v) (nat off + a),
                 data := Some (take (nat off) bs @ buffer @ drop (nat off + n) bs)\<rparr>),
          off + int a)"
    unfolding vault_write_def
    using own sem km
    by (simp add: down_interruptible_def Let_def la tc kmalloc_def cfu diff mw r1 r2 d mc
        buffer_def [symmetric] upd del: up_down split del: if_split cong: if_cong)
  also have "up (v\<lparr>sem := sem v - Suc 0, used_space := max (used_space v) (nat off + a),
                 data := Some (take (nat off) bs @ buffer @ drop (nat off + n) bs)\<rparr>) =
         v\<lparr>used_space := max (used_space v) (nat off + a),
                 data := Some (take (nat off) bs @ buffer @ drop (nat off + n) bs)\<rparr>"
    using sem by (simp add: up_def)
  finally show ?thesis by (simp add: Let_def n_def [symmetric] a_def [symmetric] buffer_def)
qed


lemma vault_read_in_range:
  assumes own: "owner v = get_current_uid k" and sem: "0 < sem v" and km: "kmalloc_ok k"
    and d: "data v = Some bs" and lb: "length bs = size_v v" and sz: "size_v v \<le> MAX_DATA"
    and us: "used_space v \<le> size_v v"
    and o0: "0 \<le> off" and o1: "nat off \<le> used_space v"
  shows "vault_read k v room len off =
     (let n = min len (used_space v - nat off); a = min n room in
      Ok (int a, take a (xor_buffer (take n (drop (nat off) bs)) n off (key v)))
         (v, off + int a))"
proof -
  define n where "n = min len (used_space v - nat off)"
  define a where "a = min n room"
  have szb: "int (size_v v) \<le> 1048576" using sz by (simp add: MAX_DATA_def)
  have la: "u64 (int (used_space v) - off) = used_space v - nat off"
    using o0 o1 us szb by (subst u64_id) auto
  have tc: "(if used_space v - nat off < len then used_space v - nat off else len) = n"
    by (simp add: n_def min_def)
  have nle: "nat off + n \<le> size_v v" using o1 us by (simp add: n_def)
  have ale: "a \<le> n" by (simp add: a_def)
  have ctu: "copy_to_user room n = n - a" by (simp add: copy_to_user_def a_def)
  have diff: "int n - int (n - a) = int a" "n - (n - a) = a" using ale by simp_all
  have r1: "s64 (int a) = int a" using ale nle szb by (intro s64_id) auto
  have r2: "s64 (off + int a) = off + int a" using o0 o1 ale nle szb by (intro s64_id) auto
  have mc: "memcpy_from (Some bs) off n = Some (take n (drop (nat off) bs))"
    using o0 nle lb by (simp add: memcpy_from_def)
  show ?thesis
    unfolding vault_read_def
    using own sem km
    by (simp add: down_interruptible_def Let_def la tc kmalloc_def ctu diff r1 r2 d mc
        n_def [symmetric] a_def [symmetric] split del: if_split cong: if_cong)
qed

lemma dec_written:
  assumes "length bs = sz" "p + n \<le> sz" "n \<le> length c" "i < sz"
  shows "dec k (take p bs @ xor_buffer (take n c) n (int p) k @ drop (p + n) bs) i =
         (if p \<le> i \<and> i < p + n then c ! (i - p) else dec k bs i)"
proof -
  let ?buf = "xor_buffer (take n c) n (int p) k"
  have lbuf: "length ?buf = n" using assms(3) by simp
  have lt: "length (take p bs) = p" using assms by simp
  consider "i < p" | "p \<le> i" "i < p + n" | "p + n \<le> i" by linarith
  then show ?thesis
  proof cases
    case 1
    then show ?thesis using lt by (simp add: dec_def nth_append)
  next
    case 2
    then have j: "i - p < n" by simp
    have "(take p bs @ ?buf @ drop (p + n) bs) ! i = (?buf @ drop (p + n) bs) ! (i - p)"
      using 2 lt by (simp only: nth_append) simp
    also have "\<dots> = ?buf ! (i - p)"
      using j lbuf by (simp only: nth_append) simp
    also have "\<dots> = take n c ! (i - p) XOR k ! ((nat (int p) + (i - p)) mod KEYSIZE)"
      using j assms(3) by (intro nth_xor_buffer) auto
    also have "\<dots> = c ! (i - p) XOR k ! (i mod KEYSIZE)" using 2 j by simp
    finally show ?thesis using 2 by (simp add: dec_def xor.assoc)
  next
    case 3
    then have j: "\<not> i - p < n" "\<not> i < p" by simp_all
    have "(take p bs @ ?buf @ drop (p + n) bs) ! i = (?buf @ drop (p + n) bs) ! (i - p)"
      using j lt by (simp only: nth_append) simp
    also have "\<dots> = drop (p + n) bs ! (i - p - n)"
      using j lbuf by (simp only: nth_append) simp
    also have "\<dots> = bs ! i" using 3 assms by simp
    finally show ?thesis using 3 by (simp add: dec_def)
  qed
qed


lemma write_chunks_ok:
  assumes "active v" and "owner v = get_current_uid k" and "kmalloc_ok k"
    and "data v = Some bs" and "p \<le> size_v v"
  shows "\<exists>v' bs'. write_chunks k v (int p) cs =
            Some (v', int (min (p + length (concat cs)) (size_v v))) \<and>
          active v' \<and> data v' = Some bs' \<and> key v' = key v \<and> owner v' = owner v \<and>
          size_v v' = size_v v \<and> used_space v \<le> used_space v' \<and>
          (cs \<noteq> [] \<longrightarrow> min (p + length (concat cs)) (size_v v) \<le> used_space v') \<and>
          (\<forall>i. p \<le> i \<and> i < min (p + length (concat cs)) (size_v v) \<longrightarrow>
               dec (key v) bs' i = concat cs ! (i - p)) \<and>
          (\<forall>i<p. dec (key v) bs' i = dec (key v) bs i)"
  using assms
proof (induction cs arbitrary: v bs p)
  case Nil
  then show ?case by (auto simp: active_def)
next
  case (Cons c cs)
  define n where "n = min (length c) (size_v v - p)"
  define bs1 where "bs1 = take p bs @ xor_buffer (take n c) n (int p) (key v) @ drop (p + n) bs"
  define v1 where "v1 = v\<lparr>used_space := max (used_space v) (p + n), data := Some bs1\<rparr>"
  have act: "active v" and d: "data v = Some bs" and ple: "p \<le> size_v v" by fact+
  have lb: "length bs = size_v v" using act d by (simp add: active_def)
  have nle: "p + n \<le> size_v v" using ple by (simp add: n_def)
  have nc: "n \<le> length c" by (simp add: n_def)
  have w: "vault_write k v c (length c) (int p) = Ok (int n) (v1, int p + int n)"
  proof -
    have "min n (length c) = n" using nc by simp
    moreover have "take n c @ replicate (n - length c) 0 = take n c" using nc by simp
    ultimately show ?thesis
      using vault_write_in_range [of v k bs "int p" c "length c"] Cons.prems act lb
      by (simp add: active_def Let_def n_def [symmetric] v1_def bs1_def)
  qed
  have lb1: "length bs1 = size_v v" using lb nle nc by (simp add: bs1_def)
  have act1: "active v1" using act nle lb1 by (simp add: active_def v1_def)
  have p1: "p + n \<le> size_v v1" using nle by (simp add: v1_def)
  from Cons.IH [OF act1 _ Cons.prems(3) _ p1, of bs1] Cons.prems(2)
  obtain v' bs' where
    wc: "write_chunks k v1 (int (p + n)) cs =
            Some (v', int (min (p + n + length (concat cs)) (size_v v1)))"
    and a': "active v'" and d': "data v' = Some bs'" and k': "key v' = key v1"
    and o': "owner v' = owner v1" and s': "size_v v' = size_v v1"
    and m': "used_space v1 \<le> used_space v'"
    and u': "cs \<noteq> [] \<Longrightarrow> min (p + n + length (concat cs)) (size_v v1) \<le> used_space v'"
    and in': "\<And>i. p + n \<le> i \<Longrightarrow> i < min (p + n + length (concat cs)) (size_v v1) \<Longrightarrow>
               dec (key v1) bs' i = concat cs ! (i - (p + n))"
    and out': "\<And>i. i < p + n \<Longrightarrow> dec (key v1) bs' i = dec (key v1) bs1 i"
    by (auto simp: v1_def)
  have sv1: "size_v v1 = size_v v" "key v1 = key v" "owner v1 = owner v" by (simp_all add: v1_def)
  have fin: "min (p + n + length (concat cs)) (size_v v) =
             min (p + length (concat (c # cs))) (size_v v)"
    using ple by (auto simp: n_def min_def)
  have dw: "\<And>i. i < size_v v \<Longrightarrow>
      dec (key v) bs1 i = (if p \<le> i \<and> i < p + n then c ! (i - p) else dec (key v) bs i)"
    unfolding bs1_def using lb nle nc by (rule dec_written)
  have 1: "write_chunks k v (int p) (c # cs) =
            Some (v', int (min (p + length (concat (c # cs))) (size_v v)))"
    using w wc by (simp add: sv1 fin)
  have 2: "min (p + length (concat (c # cs))) (size_v v) \<le> used_space v'"
  proof (cases "cs = []")
    case True
    have "p + n \<le> used_space v1" by (simp add: v1_def)
    then have "p + n \<le> used_space v'" using m' by simp
    moreover have "min (p + length (concat (c # cs))) (size_v v) = p + n"
      using True nle fin by simp
    ultimately show ?thesis by simp
  next
    case False
    from u' [OF False] show ?thesis by (simp only: sv1 fin)
  qed
  have 5: "used_space v \<le> used_space v'"
  proof -
    have "used_space v \<le> used_space v1" by (simp add: v1_def)
    then show ?thesis using m' by simp
  qed
  have 3: "dec (key v) bs' i = concat (c # cs) ! (i - p)"
    if "p \<le> i" "i < min (p + length (concat (c # cs))) (size_v v)" for i
  proof (cases "i < p + n")
    case True
    have "dec (key v) bs' i = dec (key v) bs1 i" using out' [OF True] by (simp add: sv1)
    also have "\<dots> = c ! (i - p)" using dw [of i] that True by simp
    also have "\<dots> = concat (c # cs) ! (i - p)"
    proof -
      have "i - p < length c" using True that nc by linarith
      then show ?thesis by (simp add: nth_append)
    qed
    finally show ?thesis .
  next
    case False
    then have ge: "p + n \<le> i" by simp
    have full: "n = length c"
    proof (rule ccontr)
      assume "n \<noteq> length c"
      then have "n = size_v v - p" by (auto simp: n_def min_def)
      then show False using ge that ple by simp
    qed
    have "dec (key v) bs' i = concat cs ! (i - (p + n))"
      using in' [OF ge] that fin by (simp add: sv1)
    also have "\<dots> = concat (c # cs) ! (i - p)"
    proof -
      have "\<not> i - p < length c" "i - p - length c = i - (p + n)" using ge full by simp_all
      then show ?thesis by (simp add: nth_append)
    qed
    finally show ?thesis .
  qed
  have 4: "dec (key v) bs' i = dec (key v) bs i" if "i < p" for i
  proof -
    have "i < size_v v" using that ple by simp
    then have "dec (key v) bs1 i = dec (key v) bs i" using dw [of i] that by simp
    moreover have "dec (key v) bs' i = dec (key v) bs1 i"
      using out' [of i] that by (simp add: sv1)
    ultimately show ?thesis by simp
  qed
  show ?case
    using 1 a' d' k' o' s' 2 3 4 5 by (auto simp: sv1 simp del: concat.simps write_chunks.simps)
qed


lemma xor_buffer_Nil [simp]: "xor_buffer [] 0 offset k = []"
  by (simp add: xor_buffer_def xor_loop.simps)

lemma vault_read_zero:
  assumes "owner v = get_current_uid k" and "0 < sem v"
    and "- (2 ^ 63) \<le> off" and "off < 2 ^ 63"
  shows "vault_read k v room 0 off = Ok (0, []) (v, off)"
proof -
  have "s64 off = off" using assms(3,4) by (rule s64_id)
  moreover have "s64 0 = 0" by (simp add: s64_def)
  ultimately show ?thesis
    using assms(1,2)
    by (simp add: vault_read_def down_interruptible_def kmalloc_def memcpy_from_def
        copy_to_user_def)
qed

lemma read_chunks_zero:
  assumes "owner v = get_current_uid k" and "0 < sem v" and "p < 2 ^ 63"
    and "sum_list ls = 0"
  shows "read_chunks k v (int p) ls = Some []"
  using assms(4)
proof (induction ls)
  case Nil
  then show ?case by simp
next
  case (Cons l ls)
  then have "l = 0" "sum_list ls = 0" by simp_all
  moreover have "int p < 2 ^ 63" using assms(3) by (metis of_nat_less_iff of_nat_numeral of_nat_power)
  then have "vault_read k v 0 0 (int p) = Ok (0, []) (v, int p)"
    using assms(1,2) by (intro vault_read_zero) auto
  ultimately show ?case using Cons.IH by simp
qed

lemma read_chunks_ok:
  assumes act: "active v" and own: "owner v = get_current_uid k" and km: "kmalloc_ok k"
    and d: "data v = Some bs"
  shows "p + sum_list ls \<le> used_space v \<Longrightarrow>
         read_chunks k v (int p) ls = Some (map (dec (key v) bs) [p..<p + sum_list ls])"
proof (induction ls arbitrary: p)
  case Nil
  then show ?case by simp
next
  case (Cons l ls)
  have lb: "length bs = size_v v" and us: "used_space v \<le> size_v v"
    using act d by (simp_all add: active_def)
  have ple: "p + l \<le> used_space v" using Cons.prems by simp
  let ?out = "xor_buffer (take l (drop p bs)) l (int p) (key v)"
  have r: "vault_read k v l l (int p) = Ok (int l, ?out) (v, int p + int l)"
  proof -
    have "min l (used_space v - p) = l" using ple by simp
    then show ?thesis
      using vault_read_in_range [of v k bs "int p" l l] act own km d lb ple
      by (simp add: active_def Let_def)
  qed
  have lo: "length ?out = l" using ple us lb by simp
  have out: "?out = map (dec (key v) bs) [p..<p + l]"
  proof (rule nth_equalityI)
    show "length ?out = length (map (dec (key v) bs) [p..<p + l])" using lo by simp
  next
    fix j assume "j < length ?out"
    then have j: "j < l" using lo by simp
    have "?out ! j = take l (drop p bs) ! j XOR key v ! ((nat (int p) + j) mod KEYSIZE)"
      using j ple us lb by (intro nth_xor_buffer) auto
    also have "\<dots> = bs ! (p + j) XOR key v ! ((p + j) mod KEYSIZE)"
      using j ple us lb by simp
    finally show "?out ! j = map (dec (key v) bs) [p..<p + l] ! j"
      using j by (simp add: dec_def)
  qed
  have rest: "read_chunks k v (int (p + l)) ls =
              Some (map (dec (key v) bs) [p + l..<p + l + sum_list ls])"
    using Cons.prems by (intro Cons.IH) simp
  have "[p..<p + l] @ [p + l..<p + l + sum_list ls] = [p..<p + l + sum_list ls]"
    by (simp add: upt_add_eq_append [symmetric])
  then have "map (dec (key v) bs) [p..<p + l] @ map (dec (key v) bs) [p + l..<p + l + sum_list ls]
        = map (dec (key v) bs) [p..<p + sum_list (l # ls)]"
    by (simp add: add.assoc flip: map_append)
  then show ?case using r rest out by (simp add: add.assoc)
qed


section \<open>The concrete run\<close>

lemma mod_init_eq: "mod_init = [init_vault 0, init_vault 1, init_vault 2, init_vault 3]"
  by (simp add: mod_init_def N_VAULTS_def upt_rec numeral_2_eq_2 numeral_3_eq_3)

lemma replicate_16: "replicate 16 x = [x, x, x, x, x, x, x, x, x, x, x, x, x, x, x, x]"
  by (simp add: eval_nat_numeral)

lemma ex_create: "ioctl_handler ex_kernel mod_init 0 ex_msg = Ok () (mod_init[0 := ex_vault])"
  by (simp add: mod_init_eq ioctl_handler_def ioctl_switch_def ex_kernel_def ex_msg_def ex_vault_def
      init_vault_def N_VAULTS_def KEYSIZE_def MAX_DATA_def down_interruptible_def kmalloc_def
      get_current_uid_def up_def replicate_16)

lemma ex_write_hello:
  "vault_write ex_kernel ex_vault [72, 69, 76, 76, 79] 5 0 = Ok 5 (ex_hello, 5)"
  by (simp add: vault_write_def ex_kernel_def ex_vault_def ex_hello_def get_current_uid_def
      down_interruptible_def kmalloc_def copy_from_user_def u64_def s64_def xor_buffer_def
      xor_loop.simps memcpy_to_def KEYSIZE_def up_def)

lemma ex_write_chunks:
  "write_chunks ex_kernel ex_vault 3 [[72, 69], [76, 76, 79]] = Some (ex_written, 8)"
  by (simp add: vault_write_def ex_kernel_def ex_vault_def ex_written_def get_current_uid_def
      down_interruptible_def kmalloc_def copy_from_user_def u64_def s64_def xor_buffer_def
      xor_loop.simps memcpy_to_def KEYSIZE_def up_def)

lemma ex_write_xy: "vault_write ex_kernel ex_hello [88, 89] 2 1 = Ok 2 (ex_hxylo, 3)"
  by (simp add: vault_write_def ex_kernel_def ex_vault_def ex_hello_def ex_hxylo_def
      get_current_uid_def down_interruptible_def kmalloc_def copy_from_user_def u64_def s64_def
      xor_buffer_def xor_loop.simps memcpy_to_def KEYSIZE_def up_def)

lemma ex_write_seq:
  "write_seq ex_vault [(ex_kernel, [72, 69, 76, 76, 79], 5, 0), (ex_kernel, [88, 89], 2, 1)] =
     Some (ex_hxylo, [5, 3])"
  by (simp add: ex_write_hello ex_write_xy)

lemma ex_erase:
  "run ex_kernel (Ioctl 5 ex_msg) (mod_init[0 := ex_hello]) = Some (mod_init[0 := ex_vault])"
  by (simp add: mod_init_eq settle_def ioctl_handler_def ioctl_switch_def ex_kernel_def ex_msg_def
      ex_vault_def ex_hello_def N_VAULTS_def KEYSIZE_def down_interruptible_def
      get_current_uid_def up_def memset0_def memcpy_to_def replicate_16)

lemma replicate_2: "replicate 2 x = [x, x]"
  by (simp add: numeral_2_eq_2)


section \<open>Normal forms and what a call leaves behind\<close>

lemma up_down0: "0 < sem v \<Longrightarrow> up (v\<lparr>sem := sem v - Suc 0\<rparr>) = v"
  by (simp add: up_def)

lemma vault_write_unfold:
  "vault_write k v user len offset =
     (let tc = min len (u64 (int (size_v v) - offset)); a = min tc (length user) in
      if owner v \<noteq> get_current_uid k then Err EACCES (v, offset)
      else if sem v = 0 then Err ERESTARTSYS (up v, offset)
      else if \<not> kmalloc k tc then Err ENOMEM (v, offset)
      else case memcpy_to (data v) offset
                  (xor_buffer (take tc user @ replicate (tc - length user) 0) tc offset (key v)) of
             None \<Rightarrow> MemFault
           | Some d \<Rightarrow>
               Ok (s64 (int a))
                  (v\<lparr>used_space := max (used_space v) (u64 (offset + int a)), data := d\<rparr>,
                   s64 (offset + int a)))"
proof -
  define tc where "tc = min len (u64 (int (size_v v) - offset))"
  define a where "a = min tc (length user)"
  have tc: "(if u64 (int (size_v v) - offset) < len then u64 (int (size_v v) - offset) else len) = tc"
    by (simp add: tc_def min_def)
  have cfu: "copy_from_user user tc = (take tc user @ replicate (tc - length user) 0, tc - a)"
    by (simp add: copy_from_user_def a_def)
  have diff: "int tc - int (tc - a) = int a" "offset + int tc - int (tc - a) = offset + int a"
    by (simp_all add: a_def)
  have upd: "\<And>s m. (if used_space v < m then v\<lparr>sem := s, used_space := m\<rparr> else v\<lparr>sem := s\<rparr>) =
             v\<lparr>sem := s, used_space := max (used_space v) m\<rparr>"
    by (simp add: max_def)
  have fin: "\<And>m d. 0 < sem v \<Longrightarrow> up (v\<lparr>sem := sem v - Suc 0, used_space := m, data := d\<rparr>) = v\<lparr>used_space := m, data := d\<rparr>"
    by (simp add: up_def)
  show ?thesis
  proof (cases "sem v = 0")
    case True
    then have "down_interruptible (sem v) = None" by (simp add: down_interruptible_def)
    then show ?thesis
      unfolding vault_write_def Let_def tc_def [symmetric] a_def [symmetric]
      using True by simp
  next
    case False
    then have "down_interruptible (sem v) = Some (sem v - Suc 0)" and "0 < sem v"
      by (simp_all add: down_interruptible_def)
    then show ?thesis
      unfolding vault_write_def Let_def tc_def [symmetric] a_def [symmetric]
      using False
      by (simp add: tc cfu diff upd up_down0 fin
          split: option.splits split del: if_split cong: if_cong)
  qed
qed


lemma vault_read_unfold:
  "vault_read k v room len offset =
     (let tc = min len (u64 (int (used_space v) - offset)); a = min tc room in
      if owner v \<noteq> get_current_uid k then Err EACCES (v, offset)
      else if sem v = 0 then Err ERESTARTSYS (up v, offset)
      else if \<not> kmalloc k tc then Err ENOMEM (v, offset)
      else case memcpy_from (data v) offset tc of
             None \<Rightarrow> MemFault
           | Some b \<Rightarrow>
               Ok (s64 (int a), take a (xor_buffer b tc offset (key v)))
                  (v, s64 (offset + int a)))"
proof -
  define tc where "tc = min len (u64 (int (used_space v) - offset))"
  define a where "a = min tc room"
  have tc: "(if u64 (int (used_space v) - offset) < len then u64 (int (used_space v) - offset)
             else len) = tc"
    by (simp add: tc_def min_def)
  have ctu: "copy_to_user room tc = tc - a" by (simp add: copy_to_user_def a_def)
  have diff: "int tc - int (tc - a) = int a" "tc - (tc - a) = a" by (simp_all add: a_def)
  show ?thesis
  proof (cases "sem v = 0")
    case True
    then have "down_interruptible (sem v) = None" by (simp add: down_interruptible_def)
    then show ?thesis
      unfolding vault_read_def Let_def tc_def [symmetric] a_def [symmetric]
      using True by simp
  next
    case False
    then have "down_interruptible (sem v) = Some (sem v - Suc 0)" and "0 < sem v"
      by (simp_all add: down_interruptible_def)
    then show ?thesis
      unfolding vault_read_def Let_def tc_def [symmetric] a_def [symmetric]
      using False
      by (simp add: tc ctu diff up_down0
          split: option.splits split del: if_split cong: if_cong)
  qed
qed

lemma vault_llseek_post:
  "settle (vault_llseek k v f_pos offset whence) = Some (v', pos) \<Longrightarrow>
   v' = v \<or> v' = up v"
  by (cases "sem v = 0")
     (auto simp: vault_llseek_def settle_def down_interruptible_def Let_def up_down0
       split: if_splits)

lemma vault_read_post:
  "settle (vault_read k v room len offset) = Some (v', pos) \<Longrightarrow> v' = v \<or> v' = up v"
  by (auto simp: vault_read_unfold settle_def Let_def split: if_splits option.splits)

lemma vault_open_post: "settle (vault_open k v) = Some v' \<Longrightarrow> v' = v"
  by (auto simp: vault_open_def settle_def split: if_splits)

lemma vault_release_post: "settle (vault_release k v) = Some v' \<Longrightarrow> v' = v"
  by (auto simp: vault_release_def settle_def split: if_splits)

lemma used_space_up [simp]: "used_space (up v) = used_space v"
  by (simp add: up_def)

lemma vault_write_post:
  "settle (vault_write k v user len offset) = Some (v', pos) \<Longrightarrow>
   used_space v \<le> used_space v'"
  by (auto simp: vault_write_unfold settle_def Let_def split: if_splits option.splits)

lemma vault_write_Err:
  "vault_write k v user len offset = Err e (v', pos) \<Longrightarrow> used_space v' = used_space v"
  by (auto simp: vault_write_unfold Let_def split: if_splits option.splits)

lemma vault_write_Ok:
  assumes "vault_write k v user len offset = Ok n (v', pos)"
    and "0 \<le> offset" and "offset + int len < 2 ^ 63"
  shows "0 \<le> n \<and> n \<le> int len \<and> pos = offset + n \<and>
         used_space v' = max (used_space v) (nat (offset + n))"
proof -
  define tc where "tc = min len (u64 (int (size_v v) - offset))"
  define a where "a = min tc (length user)"
  have ale: "int a \<le> int len" by (simp add: a_def tc_def)
  have r1: "s64 (int a) = int a" using ale assms(2,3) by (intro s64_id) auto
  have r2: "s64 (offset + int a) = offset + int a" using ale assms(2,3) by (intro s64_id) auto
  have r3: "u64 (offset + int a) = nat (offset + int a)" using ale assms(2,3) by (intro u64_id) auto
  from assms(1) have "n = s64 (int a)" "pos = s64 (offset + int a)"
    "used_space v' = max (used_space v) (u64 (offset + int a))"
    by (auto simp: vault_write_unfold Let_def tc_def [symmetric] a_def [symmetric]
        split: if_splits option.splits)
  then show ?thesis using ale by (simp add: r1 r2 r3)
qed

lemma ioctl_switch_post:
  "settle (ioctl_switch k v cmd msg) = Some v' \<Longrightarrow>
   used_space v \<le> used_space v' \<or>
   used_space v' = 0 \<and> (cmd = 0 \<or> cmd = 5 \<or> cmd = 3)"
  by (auto simp: ioctl_switch_def settle_def Let_def reset_vault_def
       split: if_splits option.splits)


lemma ioctl_handler_post:
  assumes "settle (ioctl_handler k vs cmd msg) = Some vs'" and "i < length vs"
  shows "used_space (vs ! i) \<le> used_space (vs' ! i) \<or>
         used_space (vs' ! i) = 0 \<and> msg_device msg = i \<and> (cmd = 0 \<or> cmd = 5 \<or> cmd = 3)"
proof (cases "N_VAULTS \<le> msg_device msg")
  case True
  then have "vs' = vs" using assms(1) by (simp add: ioctl_handler_def settle_def)
  then show ?thesis by simp
next
  case False
  define d where "d = msg_device msg"
  define m where "m = msg\<lparr>msg_key := (msg_key msg)[KEYSIZE := 0]\<rparr>"
  show ?thesis
  proof (cases "sem (vs ! d) = 0")
    case True
    then have "vs' = vs[d := up (vs ! d)]"
      using assms(1) False
      by (simp add: ioctl_handler_def settle_def down_interruptible_def d_def)
    then show ?thesis using assms(2) by (cases "i = d") simp_all
  next
    case sem: False
    define v0 where "v0 = (vs ! d)\<lparr>sem := sem (vs ! d) - Suc 0\<rparr>"
    have h: "ioctl_handler k vs cmd msg =
          (case ioctl_switch k v0 cmd m of
               MemFault \<Rightarrow> MemFault
             | Err e v \<Rightarrow> Err e (vs[d := v])
             | Ok r v \<Rightarrow> Ok r (vs[d := v]))"
      using False sem
      by (simp add: ioctl_handler_def down_interruptible_def d_def v0_def m_def Let_def
          split: outcome.splits)
    from assms(1) obtain v' where v': "settle (ioctl_switch k v0 cmd m) = Some v'"
      and vs': "vs' = vs[d := v']"
      unfolding h by (auto simp: settle_def split: outcome.splits)
    have "used_space v0 \<le> used_space v' \<or>
          used_space v' = 0 \<and> (cmd = 0 \<or> cmd = 5 \<or> cmd = 3)"
      using v' by (rule ioctl_switch_post)
    moreover have "used_space v0 = used_space (vs ! d)" by (simp add: v0_def)
    ultimately show ?thesis using assms(2) vs' by (cases "i = d") (auto simp: d_def)
  qed
qed

lemma run_used_space:
  assumes "run k c vs = Some vs'" and "i < length vs"
  shows "used_space (vs ! i) \<le> used_space (vs' ! i) \<or>
         used_space (vs' ! i) = 0 \<and>
         (\<exists>cmd msg. c = Ioctl cmd msg \<and> msg_device msg = i \<and> (cmd = 0 \<or> cmd = 5 \<or> cmd = 3))"
proof (cases c)
  case (Open d)
  then show ?thesis using assms by (cases "i = d") (auto dest: vault_open_post)
next
  case (Release d)
  then show ?thesis using assms by (cases "i = d") (auto dest: vault_release_post)
next
  case (Llseek d f_pos offset whence)
  then show ?thesis using assms by (cases "i = d") (auto dest: vault_llseek_post)
next
  case (Read d room len offset)
  then show ?thesis using assms by (cases "i = d") (auto dest: vault_read_post)
next
  case (Write d user len offset)
  then show ?thesis using assms by (cases "i = d") (auto dest: vault_write_post)
next
  case (Ioctl cmd msg)
  then show ?thesis using assms ioctl_handler_post [of k vs cmd msg vs' i] by auto
qed

lemma Max_insert_max:
  "finite S \<Longrightarrow> Max (insert (max a b) S) = Max (insert a (insert b S))"
  by (cases "S = {}") (simp_all add: max.assoc)

lemma write_seq_used_space:
  "write_seq v ws = Some (v', ends) \<Longrightarrow>
   \<forall>(k, user, len, offset) \<in> set ws. 0 \<le> offset \<and> offset + int len < 2 ^ 63 \<Longrightarrow>
   used_space v' = Max (insert (used_space v) (set ends))"
proof (induction ws arbitrary: v ends)
  case Nil
  then show ?case by simp
next
  case (Cons w ws)
  obtain k user len offset where w: "w = (k, user, len, offset)" by (cases w) auto
  have vfs: "0 \<le> offset" "offset + int len < 2 ^ 63"
    and rest: "\<forall>(k, user, len, offset) \<in> set ws. 0 \<le> offset \<and> offset + int len < 2 ^ 63"
    using Cons.prems(2) by (auto simp: w)
  show ?case
  proof (cases "vault_write k v user len offset")
    case MemFault
    then show ?thesis using Cons.prems(1) by (simp add: w)
  next
    case (Err e s)
    obtain v1 pos where s: "s = (v1, pos)" by (cases s) auto
    have "write_seq v1 ws = Some (v', ends)" using Cons.prems(1) Err by (simp add: w s)
    then have "used_space v' = Max (insert (used_space v1) (set ends))"
      using rest by (rule Cons.IH)
    moreover have "used_space v1 = used_space v" using Err by (auto simp: s dest: vault_write_Err)
    ultimately show ?thesis by simp
  next
    case (Ok n s)
    obtain v1 pos where s: "s = (v1, pos)" by (cases s) auto
    from Cons.prems(1) Ok obtain ends' where
      ws: "write_seq v1 ws = Some (v', ends')" and e: "ends = nat (offset + n) # ends'"
      by (auto simp: w s split: option.splits)
    have "used_space v' = Max (insert (used_space v1) (set ends'))"
      using ws rest by (rule Cons.IH)
    moreover have "used_space v1 = max (used_space v) (nat (offset + n))"
      using vault_write_Ok [of k v user len offset n v1 pos] Ok vfs by (simp add: s)
    ultimately show ?thesis by (simp only: e list.set Max_insert_max [OF finite_set])
  qed
qed
lemma ioctl_handler_refused:
  assumes "msg_device msg < N_VAULTS" and "0 < sem (vaults ! msg_device msg)"
    and "ioctl_switch k ((vaults ! msg_device msg)\<lparr>sem := sem (vaults ! msg_device msg) - Suc 0\<rparr>)
           cmd (msg\<lparr>msg_key := (msg_key msg)[KEYSIZE := 0]\<rparr>) =
         Err e (up ((vaults ! msg_device msg)\<lparr>sem := sem (vaults ! msg_device msg) - Suc 0\<rparr>))"
  shows "ioctl_handler k vaults cmd msg = Err e vaults"
  using assms by (simp add: ioctl_handler_def down_interruptible_def up_down0)


section \<open>The handlers inside their bounds\<close>

text \<open>
  With the semaphore free an unknown command is refused and nothing changes. A vault
  that \<open>reset_vault\<close> has freed refuses every data-path call of a caller whose uid
  is not \<open>(uid_t)-1\<close> (no process has that uid). A successful \<open>Create\<close> on a slot
  that is not in use leaves an Active vault. A write by the owner at a position
  that is at most the capacity keeps the vault Active, so \<open>used_space \<le> size\<close>, and
  writes at most \<open>size - offset\<close> bytes.
\<close>

lemma unknown_cmd_guard_free:
  assumes "msg_device msg < N_VAULTS" and "0 < sem (vaults ! msg_device msg)"
    and "cmd \<noteq> 0" and "cmd \<noteq> 1" and "cmd \<noteq> 5" and "cmd \<noteq> 3"
  shows "ioctl_handler k vaults cmd msg = Err EINVAL vaults"
  using assms by (intro ioctl_handler_refused) (auto simp: ioctl_switch_def)

lemma reset_vault_denies:
  assumes "get_current_uid k \<noteq> - 1"
  shows "vault_open k (reset_vault v) = Err EACCES (reset_vault v)"
    and "vault_release k (reset_vault v) = Err EACCES (reset_vault v)"
    and "vault_llseek k (reset_vault v) f_pos offset whence = Err EACCES (reset_vault v, f_pos)"
    and "vault_read k (reset_vault v) room len offset = Err EACCES (reset_vault v, offset)"
    and "vault_write k (reset_vault v) user len offset = Err EACCES (reset_vault v, offset)"
  using assms
  by (auto simp: vault_open_def vault_release_def vault_llseek_def vault_read_def
      vault_write_def reset_vault_def)

lemma create_active:
  assumes "msg_device msg < N_VAULTS" and "msg_device msg < length vaults"
    and "0 < sem (vaults ! msg_device msg)"
    and "\<not> in_use (vaults ! msg_device msg)"
    and "1 \<le> msg_size msg" and "msg_size msg \<le> MAX_DATA"
    and "cdev_alloc k = Some p" and "cdev_add k = 0" and "kmalloc_ok k"
    and "length (msg_key msg) = KEYSIZE + 1"
  defines "v' \<equiv> (vaults ! msg_device msg)
           \<lparr>driver := Some p, data := Some (replicate (msg_size msg) 0), in_use := True,
            size_v := msg_size msg, used_space := 0, owner := get_current_uid k,
            key := take KEYSIZE (msg_key msg)\<rparr>"
  shows "ioctl_handler k vaults 0 msg = Ok () (vaults[msg_device msg := v'])" and "active v'"
  using assms
  by (simp_all add: ioctl_handler_def ioctl_switch_def down_interruptible_def kmalloc_def up_def
      active_def)

lemma vault_write_keeps_active:
  assumes "active v" and "owner v = get_current_uid k" and "kmalloc_ok k"
    and "0 \<le> off" and "nat off \<le> size_v v"
  shows "\<exists>n v'. vault_write k v user len off = Ok n (v', off + n) \<and> active v' \<and>
           0 \<le> n \<and> n \<le> int (size_v v) - off \<and> size_v v' = size_v v"
proof -
  obtain bs where d: "data v = Some bs" and lb: "length bs = size_v v"
    using assms(1) by (auto simp: active_def split: option.splits)
  define n where "n = min len (size_v v - nat off)"
  define a where "a = min n (length user)"
  have nle: "nat off + n \<le> size_v v" using assms(5) by (simp add: n_def)
  have ale: "a \<le> n" by (simp add: a_def)
  have "vault_write k v user len off =
      Ok (int a)
         (v\<lparr>used_space := max (used_space v) (nat off + a),
            data := Some (take (nat off) bs @
                          xor_buffer (take n user @ replicate (n - length user) 0) n off (key v) @
                          drop (nat off + n) bs)\<rparr>,
          off + int a)"
    using vault_write_in_range [of v k bs off user len] assms d lb
    by (simp add: active_def Let_def n_def a_def)
  moreover have "active (v\<lparr>used_space := max (used_space v) (nat off + a),
            data := Some (take (nat off) bs @
                          xor_buffer (take n user @ replicate (n - length user) 0) n off (key v) @
                          drop (nat off + n) bs)\<rparr>)"
    using assms(1) d lb nle ale by (auto simp: active_def)
  moreover have "int a \<le> int (size_v v) - off" using nle ale assms(4) by linarith
  ultimately show ?thesis by auto
qed

section \<open>Round trip\<close>

text \<open>
  C1. On an Active vault of capacity \<open>c\<close>, for a position \<open>p < c\<close> and a length
  \<open>l \<le> c - p\<close>: writing a plaintext of at least \<open>l\<close> bytes at \<open>p\<close>, split into the
  chunks \<open>cs\<close> in any way, and then reading \<open>l\<close> bytes at \<open>p\<close>, split into requests
  \<open>ls\<close> in any way, delivers exactly the first \<open>l\<close> bytes of the plaintext (the owner
  calls, allocations succeed, every copy to and from the user is complete).
\<close>

theorem roundtrip_chunked:
  assumes act: "active v" and own: "owner v = get_current_uid k" and km: "kmalloc_ok k"
    and p: "p < size_v v" and l: "l \<le> size_v v - p"
    and pl: "l \<le> length (concat cs)" and ls: "sum_list ls = l"
  shows "\<exists>v' offset'. write_chunks k v (int p) cs = Some (v', offset') \<and>
           read_chunks k v' (int p) ls = Some (take l (concat cs))"
proof -
  obtain bs where d: "data v = Some bs" using act by (auto simp: active_def split: option.splits)
  from write_chunks_ok [OF act own km d, of p cs] p
  obtain v' bs' where
    wc: "write_chunks k v (int p) cs = Some (v', int (min (p + length (concat cs)) (size_v v)))"
    and a': "active v'" and d': "data v' = Some bs'" and k': "key v' = key v"
    and o': "owner v' = owner v"
    and u': "cs \<noteq> [] \<Longrightarrow> min (p + length (concat cs)) (size_v v) \<le> used_space v'"
    and in': "\<And>i. p \<le> i \<Longrightarrow> i < min (p + length (concat cs)) (size_v v) \<Longrightarrow>
               dec (key v) bs' i = concat cs ! (i - p)"
    by auto
  have "read_chunks k v' (int p) ls = Some (take l (concat cs))"
  proof (cases "l = 0")
    case True
    moreover have "p < 2 ^ 63" using p act by (simp add: active_def MAX_DATA_def)
    ultimately show ?thesis
      using read_chunks_zero [of v' k p ls] a' o' own ls by (simp add: active_def)
  next
    case False
    then have "cs \<noteq> []" using pl by auto
    then have "p + l \<le> used_space v'" using u' pl l p by simp
    then have "read_chunks k v' (int p) ls = Some (map (dec (key v') bs') [p..<p + l])"
      using read_chunks_ok [OF a' _ km d', where p = p and ls = ls] o' own ls by simp
    moreover have "map (dec (key v') bs') [p..<p + l] = take l (concat cs)"
    proof (rule nth_equalityI)
      show "length (map (dec (key v') bs') [p..<p + l]) = length (take l (concat cs))"
        using pl by simp
    next
      fix i assume "i < length (map (dec (key v') bs') [p..<p + l])"
      then have i: "i < l" by simp
      then have "dec (key v) bs' (p + i) = concat cs ! (p + i - p)"
        using pl l p by (intro in') auto
      then show "map (dec (key v') bs') [p..<p + l] ! i = take l (concat cs) ! i"
        using i by (simp add: k')
    qed
    ultimately show ?thesis by simp
  qed
  then show ?thesis using wc by blast
qed

theorem roundtrip_chunked_witness:
  "active ex_vault \<and> owner ex_vault = get_current_uid ex_kernel \<and> kmalloc_ok ex_kernel \<and>
   (3::nat) < size_v ex_vault \<and> (5::nat) \<le> size_v ex_vault - 3 \<and>
   (5::nat) \<le> length (concat [[72, 69], [76, 76, 79::byte]]) \<and> sum_list [1, 4::nat] = 5 \<and>
   write_chunks ex_kernel ex_vault 3 [[72, 69], [76, 76, 79]] = Some (ex_written, 8) \<and>
   read_chunks ex_kernel ex_written 3 [1, 4] = Some [72, 69, 76, 76, 79]"
proof -
  have h: "active ex_vault" "owner ex_vault = get_current_uid ex_kernel" "kmalloc_ok ex_kernel"
    "(3::nat) < size_v ex_vault" "(5::nat) \<le> size_v ex_vault - 3"
    "(5::nat) \<le> length (concat [[72, 69], [76, 76, 79::byte]])" "sum_list [1, 4::nat] = 5"
    by (simp_all add: active_def ex_vault_def ex_kernel_def get_current_uid_def MAX_DATA_def
        KEYSIZE_def)
  from roundtrip_chunked [OF h]
  obtain v' offset' where
    wc: "write_chunks ex_kernel ex_vault (int 3) [[72, 69], [76, 76, 79]] = Some (v', offset')"
    and rc: "read_chunks ex_kernel v' (int 3) [1, 4] =
             Some (take 5 (concat [[72, 69], [76, 76, 79]]))"
    by blast
  have i3: "int 3 = 3" by simp
  have "v' = ex_written" using wc by (simp only: i3 ex_write_chunks option.inject prod.inject)
  then have "read_chunks ex_kernel ex_written 3 [1, 4] = Some [72, 69, 76, 76, 79]"
    using rc by (simp only: i3) simp
  then show ?thesis using h ex_write_chunks by blast
qed

section \<open>Seek\<close>

text \<open>
  C8. For the owner, with the semaphore free, a vault of capacity \<open>c \<le> MAX_DATA\<close>, a
  current position that is not negative and \<open>whence\<close> one of \<open>SEEK_SET\<close>, \<open>SEEK_CUR\<close>,
  \<open>SEEK_END\<close>: the target is \<open>offset\<close>, \<open>current + offset\<close> or \<open>c - 1 - offset\<close>; the call
  fails with \<open>EINVAL\<close> and leaves the position as it was exactly when the target is
  negative or at least \<open>c\<close>, and otherwise sets the position to the target and
  returns it.
\<close>

theorem vault_llseek_spec:
  assumes "owner vault = get_current_uid k" and "0 < sem vault"
    and "size_v vault \<le> MAX_DATA"
    and "0 \<le> f_pos" and "f_pos < 2 ^ 63"
    and "- (2 ^ 63) \<le> offset" and "offset < 2 ^ 63"
    and "whence = SEEK_SET \<or> whence = SEEK_CUR \<or> whence = SEEK_END"
  shows "vault_llseek k vault f_pos offset whence =
     (let new = (if whence = SEEK_SET then offset
                 else if whence = SEEK_CUR then f_pos + offset
                 else int (size_v vault) - 1 - offset)
      in if new < 0 \<or> int (size_v vault) \<le> new
         then Err EINVAL (vault, f_pos) else Ok new (vault, new))"
proof -
  have sz: "int (size_v vault) \<le> 1048576" using assms(3) by (simp add: MAX_DATA_def)
  define raw where "raw = (if whence = SEEK_SET then offset
                 else if whence = SEEK_CUR then f_pos + offset
                 else int (size_v vault) - 1 - offset)"
  define new_offset where "new_offset = (if whence = SEEK_SET then offset
                   else if whence = SEEK_CUR then s64 (f_pos + offset)
                   else s64 (int (size_v vault) - 1 - offset))"
  have lo: "- (2 ^ 63) \<le> raw" and hi: "raw < 2 ^ 64"
    using assms(4-7) sz by (auto simp: raw_def)
  have new: "new_offset = s64 raw"
    using assms(6,7) by (auto simp: new_offset_def raw_def s64_id)
  have code: "vault_llseek k vault f_pos offset whence =
      (if new_offset < 0 \<or> size_v vault \<le> u64 new_offset
       then Err EINVAL (vault, f_pos) else Ok new_offset (vault, new_offset))"
    using assms(1,2,8)
    by (simp add: vault_llseek_def down_interruptible_def up_down Let_def new_offset_def)
  have eq: "(if new_offset < 0 \<or> size_v vault \<le> u64 new_offset
       then Err EINVAL (vault, f_pos) else Ok new_offset (vault, new_offset)) =
      (if raw < 0 \<or> int (size_v vault) \<le> raw
         then Err EINVAL (vault, f_pos) else Ok raw (vault, raw))"
  proof (cases "raw < 2 ^ 63")
    case True
    then have n: "new_offset = raw" using lo by (simp add: new s64_id)
    show ?thesis
    proof (cases "raw < 0")
      case True
      then show ?thesis by (simp add: n)
    next
      case False
      then have "u64 raw = nat raw" using \<open>raw < 2 ^ 63\<close> by (intro u64_id) auto
      then show ?thesis using False by (auto simp: n)
    qed
  next
    case False
    then have "new_offset = raw - 2 ^ 64" using hi by (simp add: new s64_wrap)
    then have "new_offset < 0" using hi by simp
    moreover have "int (size_v vault) \<le> raw" using False sz by simp
    ultimately show ?thesis by simp
  qed
  show ?thesis unfolding code eq by (simp add: raw_def Let_def)
qed

theorem vault_llseek_spec_witness:
  "owner ex_vault = get_current_uid ex_kernel \<and> 0 < sem ex_vault \<and>
   size_v ex_vault \<le> MAX_DATA \<and>
   vault_llseek ex_kernel ex_vault 5 3 SEEK_END = Ok 12 (ex_vault, 12) \<and>
   vault_llseek ex_kernel ex_vault 5 3 SEEK_CUR = Ok 8 (ex_vault, 8) \<and>
   vault_llseek ex_kernel ex_vault 5 16 SEEK_SET = Err EINVAL (ex_vault, 5) \<and>
   vault_llseek ex_kernel ex_vault 5 (- 1) SEEK_END = Err EINVAL (ex_vault, 5)"
  using vault_llseek_spec [of ex_vault ex_kernel 5 3 SEEK_END]
    vault_llseek_spec [of ex_vault ex_kernel 5 3 SEEK_CUR]
    vault_llseek_spec [of ex_vault ex_kernel 5 16 SEEK_SET]
    vault_llseek_spec [of ex_vault ex_kernel 5 "- 1" SEEK_END]
  by (simp add: ex_vault_def ex_kernel_def get_current_uid_def MAX_DATA_def SEEK_SET_def
      SEEK_CUR_def SEEK_END_def)

section \<open>Used space\<close>

text \<open>
  C6. A \<open>write\<close> that returns a count \<open>n\<close> (at a position that is not negative, with
  \<open>offset + len\<close> inside \<open>loff_t\<close>, as the VFS passes them) leaves
  \<open>used_space = max used_space (offset + n)\<close>. So after any sequence of writes
  \<open>used_space\<close> is the maximum of its value before and of \<open>offset + n\<close> over the
  writes that returned a count. And no call of any handler lowers the \<open>used_space\<close>
  of any vault, except that the control commands 0 (Create), 5 (Erase) and 3 (Delete)
  set that of their vault to 0.
\<close>

theorem used_space_high_water:
  "(vault_write k v user len offset = Ok n (v', pos) \<and> 0 \<le> offset \<and>
      offset + int len < 2 ^ 63 \<longrightarrow>
      used_space v' = max (used_space v) (nat (offset + n))) \<and>
   (write_seq v ws = Some (v'', ends) \<and>
      (\<forall>(k, user, len, offset) \<in> set ws. 0 \<le> offset \<and> offset + int len < 2 ^ 63) \<longrightarrow>
      used_space v'' = Max (insert (used_space v) (set ends))) \<and>
   (run k' c vs = Some vs' \<and> i < length vs \<longrightarrow>
      used_space (vs ! i) \<le> used_space (vs' ! i) \<or>
      used_space (vs' ! i) = 0 \<and>
      (\<exists>cmd msg. c = Ioctl cmd msg \<and> msg_device msg = i \<and> (cmd = 0 \<or> cmd = 5 \<or> cmd = 3)))"
proof (intro conjI impI)
  assume "vault_write k v user len offset = Ok n (v', pos) \<and> 0 \<le> offset \<and>
      offset + int len < 2 ^ 63"
  then show "used_space v' = max (used_space v) (nat (offset + n))"
    using vault_write_Ok [of k v user len offset n v' pos] by simp
next
  assume "write_seq v ws = Some (v'', ends) \<and>
      (\<forall>(k, user, len, offset) \<in> set ws. 0 \<le> offset \<and> offset + int len < 2 ^ 63)"
  then show "used_space v'' = Max (insert (used_space v) (set ends))"
    using write_seq_used_space [of v ws v'' ends] by simp
next
  assume "run k' c vs = Some vs' \<and> i < length vs"
  then show "used_space (vs ! i) \<le> used_space (vs' ! i) \<or>
      used_space (vs' ! i) = 0 \<and>
      (\<exists>cmd msg. c = Ioctl cmd msg \<and> msg_device msg = i \<and> (cmd = 0 \<or> cmd = 5 \<or> cmd = 3))"
    using run_used_space [of k' c vs vs' i] by simp
qed


theorem used_space_high_water_witness:
  "vault_write ex_kernel ex_vault [72, 69, 76, 76, 79] 5 0 = Ok 5 (ex_hello, 5) \<and>
   used_space ex_hello = max (used_space ex_vault) 5 \<and>
   write_seq ex_vault [(ex_kernel, [72, 69, 76, 76, 79], 5, 0), (ex_kernel, [88, 89], 2, 1)] =
     Some (ex_hxylo, [5, 3]) \<and>
   used_space ex_hxylo = Max (insert (used_space ex_vault) (set [5, 3])) \<and>
   run ex_kernel (Ioctl 5 ex_msg) (mod_init[0 := ex_hello]) = Some (mod_init[0 := ex_vault]) \<and>
   used_space (mod_init[0 := ex_hello] ! 0) = 5 \<and>
   used_space (mod_init[0 := ex_vault] ! 0) = 0"
proof -
  have u: "used_space ex_vault = 0" "used_space ex_hello = 5" "used_space ex_hxylo = 5"
    by (simp_all add: ex_vault_def ex_hello_def ex_hxylo_def)
  have m: "mod_init[0 := ex_hello] ! 0 = ex_hello" "mod_init[0 := ex_vault] ! 0 = ex_vault"
    "0 < length (mod_init[0 := ex_hello])" "msg_device ex_msg = 0"
    by (simp_all add: mod_init_eq ex_msg_def)
  show ?thesis
    using used_space_high_water [of ex_kernel ex_vault "[72, 69, 76, 76, 79]" 5 0 5 ex_hello 5
      "[(ex_kernel, [72, 69, 76, 76, 79], 5, 0), (ex_kernel, [88, 89], 2, 1)]" ex_hxylo "[5, 3]"
      ex_kernel "Ioctl 5 ex_msg" "mod_init[0 := ex_hello]" "mod_init[0 := ex_vault]" 0]
    by (simp only: ex_write_hello ex_write_seq ex_erase u m) simp
qed

section \<open>Ownership\<close>

text \<open>
  C5, as the code has it. The identity of a caller is the value of
  \<open>get_current_uid\<close>: the caller's uid on a build for kernels up to 4.14.0, the
  constant 1 on a build for later kernels. On an Active vault, a caller whose
  identity is not the owner gets \<open>EACCES\<close> from \<open>open\<close>, \<open>release\<close>, \<open>llseek\<close>, \<open>read\<close>
  and \<open>write\<close>, and, when the vault's semaphore is free, from the control commands
  1 (ChangeKey), 5 (Erase) and 3 (Delete). Command 0 (Create) on an Active vault,
  when the vault's semaphore is free, fails with \<open>EINVAL\<close> for every caller, the
  owner or not: the owner is not looked at. None of these calls changes the vault,
  the pool or the position.
\<close>

theorem non_owner_rejected:
  assumes "in_use v"
  shows "(owner v \<noteq> get_current_uid k \<longrightarrow>
       vault_open k v = Err EACCES v \<and> vault_release k v = Err EACCES v \<and>
       vault_llseek k v f_pos offset whence = Err EACCES (v, f_pos) \<and>
       vault_read k v room len offset = Err EACCES (v, offset) \<and>
       vault_write k v user len offset = Err EACCES (v, offset) \<and>
       (msg_device msg < N_VAULTS \<and> vaults ! msg_device msg = v \<and> 0 < sem v \<and>
        (cmd = 1 \<or> cmd = 5 \<or> cmd = 3) \<longrightarrow>
          ioctl_handler k vaults cmd msg = Err EACCES vaults)) \<and>
     (msg_device msg < N_VAULTS \<and> vaults ! msg_device msg = v \<and> 0 < sem v \<longrightarrow>
        ioctl_handler k vaults 0 msg = Err EINVAL vaults)"
proof -
  have data: "vault_open k v = Err EACCES v" "vault_release k v = Err EACCES v"
    "vault_llseek k v f_pos offset whence = Err EACCES (v, f_pos)"
    "vault_read k v room len offset = Err EACCES (v, offset)"
    "vault_write k v user len offset = Err EACCES (v, offset)"
    if "owner v \<noteq> get_current_uid k"
    using that
    by (simp_all add: vault_open_def vault_release_def vault_llseek_def vault_read_def
        vault_write_def)
  have ctl: "ioctl_handler k vaults cmd msg = Err EACCES vaults"
    if "owner v \<noteq> get_current_uid k" "msg_device msg < N_VAULTS"
      "vaults ! msg_device msg = v" "0 < sem v" "cmd = 1 \<or> cmd = 5 \<or> cmd = 3"
    using that assms
    by (intro ioctl_handler_refused) (auto simp: ioctl_switch_def)
  have create: "ioctl_handler k vaults 0 msg = Err EINVAL vaults"
    if "msg_device msg < N_VAULTS" "vaults ! msg_device msg = v" "0 < sem v"
    using that assms
    by (intro ioctl_handler_refused) (auto simp: ioctl_switch_def)
  show ?thesis using data ctl create by blast
qed

theorem non_owner_rejected_witness:
  "in_use ex_vault \<and> owner ex_vault \<noteq> get_current_uid ex_intruder \<and>
   owner ex_vault = get_current_uid ex_kernel \<and> 0 < sem ex_vault \<and>
   vault_open ex_intruder ex_vault = Err EACCES ex_vault \<and>
   vault_release ex_intruder ex_vault = Err EACCES ex_vault \<and>
   vault_llseek ex_intruder ex_vault 0 3 SEEK_SET = Err EACCES (ex_vault, 0) \<and>
   vault_read ex_intruder ex_vault 4 4 0 = Err EACCES (ex_vault, 0) \<and>
   vault_write ex_intruder ex_vault [1, 2] 2 0 = Err EACCES (ex_vault, 0) \<and>
   ioctl_handler ex_intruder (mod_init[0 := ex_vault]) 1 ex_msg =
     Err EACCES (mod_init[0 := ex_vault]) \<and>
   ioctl_handler ex_intruder (mod_init[0 := ex_vault]) 5 ex_msg =
     Err EACCES (mod_init[0 := ex_vault]) \<and>
   ioctl_handler ex_intruder (mod_init[0 := ex_vault]) 3 ex_msg =
     Err EACCES (mod_init[0 := ex_vault]) \<and>
   ioctl_handler ex_intruder (mod_init[0 := ex_vault]) 0 ex_msg =
     Err EINVAL (mod_init[0 := ex_vault]) \<and>
   ioctl_handler ex_kernel (mod_init[0 := ex_vault]) 0 ex_msg =
     Err EINVAL (mod_init[0 := ex_vault])"
proof -
  have h: "in_use ex_vault" "owner ex_vault \<noteq> get_current_uid ex_intruder"
    "owner ex_vault = get_current_uid ex_kernel"
    "msg_device ex_msg < N_VAULTS" "mod_init[0 := ex_vault] ! msg_device ex_msg = ex_vault"
    "0 < sem ex_vault"
    by (simp_all add: ex_vault_def ex_intruder_def ex_kernel_def get_current_uid_def ex_msg_def
        N_VAULTS_def mod_init_eq)
  show ?thesis
    using non_owner_rejected [OF h(1), where k = ex_intruder and f_pos = 0 and offset = 3
        and whence = SEEK_SET and msg = ex_msg and vaults = "mod_init[0 := ex_vault]" and cmd = 1]
      non_owner_rejected [OF h(1), where k = ex_intruder and msg = ex_msg
        and vaults = "mod_init[0 := ex_vault]" and cmd = 5]
      non_owner_rejected [OF h(1), where k = ex_intruder and msg = ex_msg
        and vaults = "mod_init[0 := ex_vault]" and cmd = 3]
      non_owner_rejected [OF h(1), where k = ex_intruder and offset = 0 and room = 4 and len = 4]
      non_owner_rejected [OF h(1), where k = ex_intruder and offset = 0 and user = "[1, 2]"
        and len = 2]
      non_owner_rejected [OF h(1), where k = ex_kernel and msg = ex_msg
        and vaults = "mod_init[0 := ex_vault]"] h
    by simp
qed


text \<open>
  C5 as stated fails for Create: on the Active vault \<open>ex_vault\<close> of uid 1000, command 0
  from uid 1001 is refused with \<open>EINVAL\<close>, not with \<open>EACCES\<close>.
\<close>

theorem create_by_non_owner_counterexample:
  "in_use ex_vault \<and> owner ex_vault \<noteq> get_current_uid ex_intruder \<and>
   ioctl_handler ex_intruder (mod_init[0 := ex_vault]) 0 ex_msg =
     Err EINVAL (mod_init[0 := ex_vault]) \<and>
   ioctl_handler ex_intruder (mod_init[0 := ex_vault]) 0 ex_msg \<noteq>
     Err EACCES (mod_init[0 := ex_vault])"
  by (simp add: mod_init_eq ioctl_handler_def ioctl_switch_def ex_intruder_def ex_kernel_def
      ex_msg_def ex_vault_def N_VAULTS_def KEYSIZE_def down_interruptible_def
      get_current_uid_def up_def)


section \<open>Where the handlers leave their bounds\<close>

text \<open>
  C2. \<open>len_avail = used_space - *offset\<close> is unsigned: with the position beyond
  \<open>used_space\<close> it wraps to a huge value instead of 0. After \<open>HELLO\<close> is written at 0
  (\<open>used_space = 5\<close>) and the position is set to 10 (inside the capacity 16), a read
  of 4 bytes returns 4 bytes, the zero bytes at 10..13 xored with the key, that is
  the key bytes \<open>ABCD\<close>; a read of 100 bytes copies from outside the buffer.
\<close>

theorem read_past_used_space:
  "ioctl_handler ex_kernel mod_init 0 ex_msg = Ok () (mod_init[0 := ex_vault]) \<and>
   vault_write ex_kernel ex_vault [72, 69, 76, 76, 79] 5 0 = Ok 5 (ex_hello, 5) \<and>
   used_space ex_hello = 5 \<and> size_v ex_hello = 16 \<and>
   vault_llseek ex_kernel ex_hello 5 10 SEEK_SET = Ok 10 (ex_hello, 10) \<and>
   vault_read ex_kernel ex_hello 4 4 10 = Ok (4, [65, 66, 67, 68]) (ex_hello, 14) \<and>
   vault_read ex_kernel ex_hello 100 100 10 = MemFault"
proof -
  have "used_space ex_hello = 5 \<and> size_v ex_hello = 16 \<and>
     vault_llseek ex_kernel ex_hello 5 10 SEEK_SET = Ok 10 (ex_hello, 10) \<and>
     vault_read ex_kernel ex_hello 4 4 10 = Ok (4, [65, 66, 67, 68]) (ex_hello, 14) \<and>
     vault_read ex_kernel ex_hello 100 100 10 = MemFault"
    by (simp add: vault_read_def vault_llseek_def ex_kernel_def ex_vault_def
        ex_hello_def get_current_uid_def down_interruptible_def kmalloc_def copy_to_user_def
        u64_def s64_def xor_buffer_def xor_loop.simps memcpy_from_def KEYSIZE_def up_def
        SEEK_SET_def)
  then show ?thesis using ex_create ex_write_hello by simp
qed

text \<open>
  C3. The \<open>memcpy\<close> into the vault copies \<open>to_copy\<close> bytes, not the bytes received.
  A write of 4 bytes of which only 2 (\<open>HI\<close>) can be read from the user returns 2
  and sets \<open>used_space\<close> to 2, and yet the bytes of \<open>data\<close> at 2 and 3 change from
  0 to the zero padding xored with the key (67, 68).
\<close>

theorem short_copy_in_overwrites:
  "ioctl_handler ex_kernel mod_init 0 ex_msg = Ok () (mod_init[0 := ex_vault]) \<and>
   data ex_vault = Some [0, 0, 0, 0, 0, 0, 0, 0, 0, 0, 0, 0, 0, 0, 0, 0] \<and>
   copy_from_user [72, 73] 4 = ([72, 73, 0, 0], 2) \<and>
   vault_write ex_kernel ex_vault [72, 73] 4 0 =
     Ok 2 (ex_vault\<lparr>used_space := 2,
                     data := Some [9, 11, 67, 68, 0, 0, 0, 0, 0, 0, 0, 0, 0, 0, 0, 0]\<rparr>, 2)"
proof -
  have "data ex_vault = Some [0, 0, 0, 0, 0, 0, 0, 0, 0, 0, 0, 0, 0, 0, 0, 0] \<and>
     copy_from_user [72, 73] 4 = ([72, 73, 0, 0], 2) \<and>
     vault_write ex_kernel ex_vault [72, 73] 4 0 =
       Ok 2 (ex_vault\<lparr>used_space := 2,
                       data := Some [9, 11, 67, 68, 0, 0, 0, 0, 0, 0, 0, 0, 0, 0, 0, 0]\<rparr>, 2)"
    by (simp add: vault_write_def ex_kernel_def ex_vault_def get_current_uid_def
        down_interruptible_def kmalloc_def copy_from_user_def u64_def s64_def xor_buffer_def
        xor_loop.simps memcpy_to_def KEYSIZE_def up_def replicate_2)
  then show ?thesis using ex_create by simp
qed

text \<open>
  C4. On the fresh module \<open>Create\<close> of vault 0 fails with \<open>ENOMEM\<close> when \<open>kmalloc\<close>
  for the data buffer fails, after \<open>vault->driver\<close> was set to the new cdev: the
  vault stays not in use, and its \<open>driver\<close> is no longer \<open>NULL\<close>.
\<close>

theorem create_alloc_failure_keeps_driver:
  "driver (mod_init ! 0) = None \<and>
   ioctl_handler ex_nomem mod_init 0 ex_msg = Err ENOMEM (mod_init[0 := ex_failed]) \<and>
   driver (mod_init[0 := ex_failed] ! 0) = Some 1 \<and> in_use ex_failed = False"
  by (simp add: mod_init_eq ioctl_handler_def ioctl_switch_def ex_nomem_def ex_kernel_def
      ex_msg_def ex_failed_def init_vault_def N_VAULTS_def KEYSIZE_def MAX_DATA_def
      down_interruptible_def kmalloc_def get_current_uid_def up_def)


text \<open>
  C7. \<open>len_avail = size - *offset\<close> is unsigned as well. On the vault of capacity 16,
  a write of no bytes at position 20 returns 0 and raises \<open>used_space\<close> to 20, above
  the capacity; a write of 4 bytes at position 20 copies them to \<open>data + 20\<close>,
  outside the buffer.
\<close>

theorem write_beyond_capacity:
  "ioctl_handler ex_kernel mod_init 0 ex_msg = Ok () (mod_init[0 := ex_vault]) \<and>
   size_v ex_vault = 16 \<and>
   vault_write ex_kernel ex_vault [] 0 20 = Ok 0 (ex_vault\<lparr>used_space := 20\<rparr>, 20) \<and>
   vault_write ex_kernel ex_vault [1, 2, 3, 4] 4 20 = MemFault"
proof -
  have "size_v ex_vault = 16 \<and>
     vault_write ex_kernel ex_vault [] 0 20 = Ok 0 (ex_vault\<lparr>used_space := 20\<rparr>, 20) \<and>
     vault_write ex_kernel ex_vault [1, 2, 3, 4] 4 20 = MemFault"
    by (simp add: vault_write_def ex_kernel_def ex_vault_def get_current_uid_def
        down_interruptible_def kmalloc_def copy_from_user_def u64_def s64_def xor_buffer_def
        xor_loop.simps memcpy_to_def KEYSIZE_def up_def)
  then show ?thesis using ex_create by simp
qed

text \<open>
  C9. A vault that was never created has the owner 0 of the \<open>memset\<close> in \<open>mod_init\<close>,
  not the \<open>-1\<close> of \<open>reset_vault\<close>. After a \<open>Create\<close> that failed with \<open>ENOMEM\<close> its
  device is registered while it is not in use, and for the caller with uid 0
  \<open>open\<close>, \<open>release\<close>, \<open>read\<close> and \<open>write\<close> succeed and \<open>llseek\<close> fails with \<open>EINVAL\<close>:
  none is refused with \<open>EACCES\<close>.
\<close>

theorem free_vault_admits_root:
  "ioctl_handler ex_nomem mod_init 0 ex_msg = Err ENOMEM (mod_init[0 := ex_failed]) \<and>
   in_use ex_failed = False \<and> owner ex_failed = get_current_uid ex_root \<and>
   vault_open ex_root ex_failed = Ok () ex_failed \<and>
   vault_release ex_root ex_failed = Ok () ex_failed \<and>
   vault_read ex_root ex_failed 4 4 0 = Ok (0, []) (ex_failed, 0) \<and>
   vault_write ex_root ex_failed [1, 2, 3, 4] 4 0 = Ok 0 (ex_failed, 0) \<and>
   vault_llseek ex_root ex_failed 0 0 SEEK_SET = Err EINVAL (ex_failed, 0)"
  by (simp add: mod_init_eq ioctl_handler_def ioctl_switch_def ex_nomem_def ex_root_def
      ex_kernel_def ex_msg_def ex_failed_def init_vault_def N_VAULTS_def KEYSIZE_def MAX_DATA_def
      down_interruptible_def kmalloc_def get_current_uid_def up_def vault_open_def
      vault_release_def vault_read_def vault_write_def vault_llseek_def u64_def s64_def
      copy_to_user_def copy_from_user_def memcpy_from_def memcpy_to_def xor_buffer_def
      xor_loop.simps SEEK_SET_def)


text \<open>
  C10. When another context holds the semaphore of vault 0 and the wait for it is
  interrupted, the control handler returns \<open>ERESTARTSYS\<close> for the unknown command 7
  after calling \<open>up\<close> on the semaphore it did not take: the count in the vault
  changes from 0 to 1.
\<close>

theorem unknown_cmd_interrupted:
  "sem ex_held = 0 \<and>
   ioctl_handler ex_kernel (mod_init[0 := ex_held]) 7 ex_msg =
     Err ERESTARTSYS (mod_init[0 := ex_vault]) \<and>
   sem ex_vault = 1"
  by (simp add: mod_init_eq ioctl_handler_def ex_kernel_def ex_msg_def ex_held_def ex_vault_def
      N_VAULTS_def KEYSIZE_def down_interruptible_def up_def)

end
